theory Spec2Isabelle
  imports Complex_Main "HOL-Library.Multiset"
begin

section \<open>Secondary-structure metrics of the ss\_pred notebooks\<close>

text \<open>
  The notebooks evaluate predicted secondary structure with three Python functions,
  \<^verbatim>\<open>get_segments\<close>, \<^verbatim>\<open>segment_of_overlap\<close> and \<^verbatim>\<open>q3_acc\<close>. They are embedded
  here as HOL functions. A Python exception is a value \<open>Inl e\<close> of a sum type, a normal
  return is \<open>Inr v\<close>. The float64 arithmetic of the scores is modelled by exact
  arithmetic on \<open>real\<close>; the lengths, overlaps and \<open>delta\<close> that enter the quotients
  are integers.
\<close>

subsection \<open>Exceptions and the label dictionary\<close>

datatype py_error = IndexError | KeyError char | ZeroDivisionError | ValueError

text \<open>
  \<^verbatim>\<open>ss_id_dict = {'H':0, 'E':1, '-':2}\<close> and
  \<^verbatim>\<open>label_to_index(ss, id_dict) = np.array([id_dict[i] for i in ss])\<close>.
\<close>

definition ss_id_dict :: "char \<Rightarrow> py_error + int" where
  "ss_id_dict c =
     (if c = CHR ''H'' then Inr 0
      else if c = CHR ''E'' then Inr 1
      else if c = CHR ''-'' then Inr 2
      else Inl (KeyError c))"

fun label_to_index :: "string \<Rightarrow> py_error + int list" where
  "label_to_index [] = Inr []"
| "label_to_index (i # ss) =
     (case ss_id_dict i of
        Inl e \<Rightarrow> Inl e
      | Inr v \<Rightarrow> (case label_to_index ss of Inl e \<Rightarrow> Inl e | Inr vs \<Rightarrow> Inr (v # vs)))"

subsection \<open>Segment extraction: \<^verbatim>\<open>get_segments\<close>\<close>

text \<open>
  \<^verbatim>\<open>ss_strs = ["".join(grp) for val, grp in itertools.groupby(ss_str)]\<close>:
  the maximal runs of equal consecutive characters, left to right.
\<close>

function groupby :: "string \<Rightarrow> string list" where
  "groupby [] = []"
| "groupby (c # cs) =
     (c # takeWhile (\<lambda>d. d = c) cs) # groupby (dropWhile (\<lambda>d. d = c) cs)"
  by pat_completeness auto
termination
  by (relation "measure length") (auto simp: less_Suc_eq_le length_dropWhile_le)

text \<open>
  A segment is the two-element list \<^verbatim>\<open>[ss_strs[i], idx_lens[i]]\<close>: the run and the
  array \<^verbatim>\<open>np.arange(idx_start, idx_start+len(i))\<close> of its positions.
\<close>

type_synonym segment = "string \<times> nat list"

fun idx_lens_loop :: "string list \<Rightarrow> nat \<Rightarrow> nat list list" where
  "idx_lens_loop [] idx_start = []"
| "idx_lens_loop (i # rest) idx_start =
     [idx_start ..< idx_start + length i] # idx_lens_loop rest (idx_start + length i)"

text \<open>
  \<^verbatim>\<open>segment_types = {'E':[], 'H':[], '-':[]}\<close> is a dictionary whose key set never
  changes: a record with one field per key. Indexing it with any other character raises
  KeyError.
\<close>

record segment_types =
  seg_E :: "segment list"
  seg_H :: "segment list"
  seg_dash :: "segment list"

definition empty_segment_types :: segment_types where
  "empty_segment_types = \<lparr>seg_E = [], seg_H = [], seg_dash = []\<rparr>"

definition dict_keys :: "char list" where
  "dict_keys = [CHR ''E'', CHR ''H'', CHR ''-'']"

definition getitem :: "segment_types \<Rightarrow> char \<Rightarrow> py_error + segment list" where
  "getitem st k =
     (if k = CHR ''E'' then Inr (seg_E st)
      else if k = CHR ''H'' then Inr (seg_H st)
      else if k = CHR ''-'' then Inr (seg_dash st)
      else Inl (KeyError k))"

definition append_item :: "segment_types \<Rightarrow> char \<Rightarrow> segment \<Rightarrow> py_error + segment_types" where
  "append_item st k s =
     (if k = CHR ''E'' then Inr (st\<lparr>seg_E := seg_E st @ [s]\<rparr>)
      else if k = CHR ''H'' then Inr (st\<lparr>seg_H := seg_H st @ [s]\<rparr>)
      else if k = CHR ''-'' then Inr (st\<lparr>seg_dash := seg_dash st @ [s]\<rparr>)
      else Inl (KeyError k))"

text \<open>
  The second loop of \<^verbatim>\<open>get_segments\<close>:
  \<^verbatim>\<open>segment_types[ss_strs[i][0]].append([ss_strs[i], idx_lens[i]])\<close>.
\<close>

fun append_loop :: "segment list \<Rightarrow> segment_types \<Rightarrow> py_error + segment_types" where
  "append_loop [] st = Inr st"
| "append_loop ((s, idx) # rest) st =
     (case s of
        [] \<Rightarrow> Inl IndexError
      | c # _ \<Rightarrow> (case append_item st c (s, idx) of
                    Inl e \<Rightarrow> Inl e
                  | Inr st' \<Rightarrow> append_loop rest st'))"

definition get_segments :: "string \<Rightarrow> py_error + segment_types" where
  "get_segments ss_str =
     (let ss_strs = groupby ss_str;
          idx_lens = idx_lens_loop ss_strs 0
      in append_loop (zip ss_strs idx_lens) empty_segment_types)"

subsection \<open>Segment overlap: \<^verbatim>\<open>segment_of_overlap\<close>\<close>

text \<open>
  \<^verbatim>\<open>np.intersect1d\<close> and \<^verbatim>\<open>np.union1d\<close> return the sorted arrays of the distinct
  values that are in both arguments, respectively in either.
\<close>

definition intersect1d :: "nat list \<Rightarrow> nat list \<Rightarrow> nat list" where
  "intersect1d a b = sort (remdups (filter (\<lambda>x. x \<in> set b) a))"

definition union1d :: "nat list \<Rightarrow> nat list \<Rightarrow> nat list" where
  "union1d a b = sort (remdups (a @ b))"

text \<open>The local variables of the innermost loop body, for segments \<open>i\<close> and \<open>j\<close>.\<close>

definition l_s :: "segment \<Rightarrow> int" where
  "l_s i = int (length (snd i))"

definition minov :: "segment \<Rightarrow> segment \<Rightarrow> int" where
  "minov i j = int (length (intersect1d (snd i) (snd j)))"

definition maxov :: "segment \<Rightarrow> segment \<Rightarrow> int" where
  "maxov i j = int (length (union1d (snd i) (snd j)))"

text \<open>
  \<^verbatim>\<open>delta = np.min([maxov-minov, minov, np.floor(l_s1/2), np.floor(l_s2/2)])\<close>:
  an integer-valued float.
\<close>

definition delta :: "segment \<Rightarrow> segment \<Rightarrow> int" where
  "delta i j = min (min (maxov i j - minov i j) (minov i j)) (min (l_s i div 2) (l_s j div 2))"

text \<open>\<^verbatim>\<open>value = l_s1*(minov+delta)/maxov\<close>\<close>

definition pair_value :: "segment \<Rightarrow> segment \<Rightarrow> real" where
  "pair_value i j = real_of_int (l_s i) * real_of_int (minov i j + delta i j) / real_of_int (maxov i j)"

text \<open>\<^verbatim>\<open>for j in ss_pred[k]: ... if minov > 0: ... subsum_k += value\<close>\<close>

fun pred_loop :: "segment \<Rightarrow> segment list \<Rightarrow> real \<Rightarrow> real" where
  "pred_loop i [] subsum_k = subsum_k"
| "pred_loop i (j # js) subsum_k =
     (if minov i j > 0 then pred_loop i js (subsum_k + pair_value i j)
      else pred_loop i js subsum_k)"

text \<open>\<^verbatim>\<open>for i in ss_ref[k]: l_s1 = len(i[1]); N_k += l_s1; for j in ss_pred[k]: ...\<close>\<close>

fun ref_loop :: "segment list \<Rightarrow> segment list \<Rightarrow> real \<times> int \<Rightarrow> real \<times> int" where
  "ref_loop [] preds (subsum_k, N_k) = (subsum_k, N_k)"
| "ref_loop (i # refs) preds (subsum_k, N_k) =
     ref_loop refs preds (pred_loop i preds subsum_k, N_k + l_s i)"

text \<open>
  \<^verbatim>\<open>for k in ss_ref.keys(): subsum_k = 0; N_k = 0; ...; N_total += N_k; val_total += subsum_k\<close>
\<close>

fun key_loop :: "char list \<Rightarrow> segment_types \<Rightarrow> segment_types \<Rightarrow> real \<times> int \<Rightarrow> py_error + real \<times> int" where
  "key_loop [] ss_ref ss_pred (val_total, N_total) = Inr (val_total, N_total)"
| "key_loop (k # ks) ss_ref ss_pred (val_total, N_total) =
     (case getitem ss_ref k of
        Inl e \<Rightarrow> Inl e
      | Inr refs \<Rightarrow>
          (case getitem ss_pred k of
             Inl e \<Rightarrow> Inl e
           | Inr preds \<Rightarrow>
               (case ref_loop refs preds (0, 0) of
                  (subsum_k, N_k) \<Rightarrow>
                    key_loop ks ss_ref ss_pred (val_total + subsum_k, N_total + N_k))))"

text \<open>
  \<^verbatim>\<open>sov = val_total/N_total\<close>. When \<open>N_total\<close> is 0 no reference segment was visited, so
  \<open>val_total\<close> is still the Python integer 0 and the quotient \<^verbatim>\<open>0/0\<close> of two Python
  integers raises ZeroDivisionError.
\<close>

definition segment_of_overlap :: "string \<Rightarrow> string \<Rightarrow> py_error + real" where
  "segment_of_overlap ss_ref_str ss_pred_str =
     (case get_segments ss_ref_str of
        Inl e \<Rightarrow> Inl e
      | Inr ss_ref \<Rightarrow>
          (case get_segments ss_pred_str of
             Inl e \<Rightarrow> Inl e
           | Inr ss_pred \<Rightarrow>
               (case key_loop dict_keys ss_ref ss_pred (0, 0) of
                  Inl e \<Rightarrow> Inl e
                | Inr (val_total, N_total) \<Rightarrow>
                    if N_total = 0 then Inl ZeroDivisionError
                    else Inr (val_total / real_of_int N_total))))"

subsection \<open>Residue accuracy: \<^verbatim>\<open>q3_acc\<close>\<close>

text \<open>
  The arrays that reach \<^verbatim>\<open>q3_acc\<close> are flat label arrays of shape \<open>(n,)\<close>, here
  \<open>Arr1\<close>, or the same wrapped in a batch dimension, shape \<open>(1, n)\<close>, here \<open>Arr2\<close>.
  Squeezing a flat array of one element leaves a 0-dimensional array, shape \<open>()\<close>, here
  \<open>Arr0\<close>.
\<close>

datatype 'a ndarray = Arr0 'a | Arr1 "'a list" | Arr2 "'a list"

text \<open>\<^verbatim>\<open>a.shape[0]\<close>: the shape of a 0-dimensional array is the empty tuple.\<close>

fun shape0 :: "'a ndarray \<Rightarrow> py_error + nat" where
  "shape0 (Arr0 x) = Inl IndexError"
| "shape0 (Arr1 xs) = Inr (length xs)"
| "shape0 (Arr2 xs) = Inr 1"

text \<open>\<^verbatim>\<open>np.squeeze(a, 0)\<close> removes axis 0 and refuses an axis whose size is not one.\<close>

fun squeeze0 :: "'a ndarray \<Rightarrow> py_error + 'a ndarray" where
  "squeeze0 (Arr1 [x]) = Inr (Arr0 x)"
| "squeeze0 (Arr2 xs) = Inr (Arr1 xs)"
| "squeeze0 a = Inl ValueError"

text \<open>\<^verbatim>\<open>if a.shape[0] == 1: a = np.squeeze(a, 0)\<close>\<close>

definition squeeze_if_single :: "'a ndarray \<Rightarrow> py_error + 'a ndarray" where
  "squeeze_if_single a =
     (case shape0 a of
        Inl e \<Rightarrow> Inl e
      | Inr n \<Rightarrow> if n = 1 then squeeze0 a else Inr a)"

fun items :: "'a ndarray \<Rightarrow> 'a list" where
  "items (Arr0 x) = [x]"
| "items (Arr1 xs) = xs"
| "items (Arr2 xs) = xs"

text \<open>
  \<^verbatim>\<open>np.sum(real==pred)\<close>. The comparison is elementwise after broadcasting: for the
  shapes above, equal lengths compare position by position and a length of one is
  stretched over the other operand. When the shapes do not broadcast, NumPy before 1.25
  (the Python 3.7 kernel of the notebooks) warns and yields the scalar \<^verbatim>\<open>False\<close>, whose
  sum is 0; NumPy from 1.25 on raises ValueError. The release is a parameter of the model.
\<close>

datatype numpy_release = ComparisonReturnsFalse | ComparisonRaises

definition sum_equal :: "numpy_release \<Rightarrow> 'a ndarray \<Rightarrow> 'a ndarray \<Rightarrow> py_error + nat" where
  "sum_equal np a b =
     (let xs = items a; ys = items b
      in if length xs = length ys then Inr (length (filter (\<lambda>(x, y). x = y) (zip xs ys)))
         else if length xs = 1 then Inr (length (filter (\<lambda>y. hd xs = y) ys))
         else if length ys = 1 then Inr (length (filter (\<lambda>x. x = hd ys) xs))
         else (case np of ComparisonReturnsFalse \<Rightarrow> Inr 0 | ComparisonRaises \<Rightarrow> Inl ValueError))"

text \<open>
  The quotient of a NumPy integer by a Python integer is a float64; NumPy does not raise
  on a zero divisor but returns \<^verbatim>\<open>nan\<close> for \<^verbatim>\<open>0/0\<close> and \<^verbatim>\<open>inf\<close> otherwise.
\<close>

datatype float64 = Float real | NaN | Inf

definition true_divide :: "nat \<Rightarrow> nat \<Rightarrow> float64" where
  "true_divide s n = (if n = 0 then (if s = 0 then NaN else Inf) else Float (real s / real n))"

definition q3_acc :: "numpy_release \<Rightarrow> 'a ndarray \<Rightarrow> 'a ndarray \<Rightarrow> py_error + float64" where
  "q3_acc np real_v pred_v =
     (case squeeze_if_single real_v of
        Inl e \<Rightarrow> Inl e
      | Inr real_s \<Rightarrow>
          (case squeeze_if_single pred_v of
             Inl e \<Rightarrow> Inl e
           | Inr pred_s \<Rightarrow>
               (case sum_equal np real_s pred_s of
                  Inl e \<Rightarrow> Inl e
                | Inr s \<Rightarrow>
                    (case shape0 real_s of
                       Inl e \<Rightarrow> Inl e
                     | Inr n \<Rightarrow> Inr (true_divide s n)))))"

subsection \<open>Auxiliary notions for the proofs\<close>

text \<open>
  The list of all segments of a string in order of appearance, the test that selects the
  segments of one dictionary key, and the sums that the loops accumulate.
\<close>

definition segments_of :: "string \<Rightarrow> segment list" where
  "segments_of s = zip (groupby s) (idx_lens_loop (groupby s) 0)"

definition has_label :: "char \<Rightarrow> segment \<Rightarrow> bool" where
  "has_label k sg = (case fst sg of [] \<Rightarrow> False | c # _ \<Rightarrow> c = k)"

definition contribution :: "segment \<Rightarrow> segment \<Rightarrow> real" where
  "contribution i j = (if minov i j > 0 then pair_value i j else 0)"

definition class_total :: "segment list \<Rightarrow> segment list \<Rightarrow> real" where
  "class_total refs preds = (\<Sum>i\<leftarrow>refs. \<Sum>j\<leftarrow>preds. contribution i j)"

definition labels :: "char set" where
  "labels = {CHR ''H'', CHR ''E'', CHR ''-''}"

definition val_total_of :: "string \<Rightarrow> string \<Rightarrow> real" where
  "val_total_of r p =
     class_total (filter (has_label CHR ''E'') (segments_of r)) (filter (has_label CHR ''E'') (segments_of p)) +
     class_total (filter (has_label CHR ''H'') (segments_of r)) (filter (has_label CHR ''H'') (segments_of p)) +
     class_total (filter (has_label CHR ''-'') (segments_of r)) (filter (has_label CHR ''-'') (segments_of p))"

section \<open>Evaluation on concrete inputs\<close>

lemmas sov_eval = segment_of_overlap_def get_segments_def empty_segment_types_def
  append_item_def dict_keys_def getitem_def minov_def maxov_def delta_def l_s_def
  pair_value_def intersect1d_def union1d_def

lemmas q3_eval = q3_acc_def squeeze_if_single_def sum_equal_def true_divide_def

lemma sov_HHHH_HHEE: "segment_of_overlap ''HHHH'' ''HHEE'' = Inr (3 / 4)"
  by (simp add: sov_eval)

lemma sov_HHEE_HHHH: "segment_of_overlap ''HHEE'' ''HHHH'' = Inr (3 / 8)"
  by (simp add: sov_eval)

lemma sov_HHHHH_HH_HH: "segment_of_overlap ''HHHHH'' ''HH-HH'' = Inr (6 / 5)"
  by (simp add: sov_eval)

lemma sov_HHHHH_HHHH: "segment_of_overlap ''HHHHH'' ''HHHH'' = Inr 1"
  by (simp add: sov_eval)

lemma get_segments_EHHE:
  "get_segments ''EHHE'' =
     Inr \<lparr>seg_E = [(''E'', [0]), (''E'', [3])], seg_H = [(''HH'', [1, 2])], seg_dash = []\<rparr>"
  by (simp add: sov_eval)

lemma get_segments_HHHH:
  "get_segments ''HHHH'' = Inr \<lparr>seg_E = [], seg_H = [(''HHHH'', [0, 1, 2, 3])], seg_dash = []\<rparr>"
  by (simp add: sov_eval)

section \<open>The segments of a string\<close>

lemma concat_groupby: "concat (groupby s) = s"
  by (induction s rule: groupby.induct) simp_all

lemma groupby_nonempty: "g \<in> set (groupby s) \<Longrightarrow> g \<noteq> []"
  by (induction s rule: groupby.induct) auto

lemma groupby_hd: "g \<in> set (groupby s) \<Longrightarrow> hd g \<in> set s"
  by (induction s rule: groupby.induct) (auto dest: set_dropWhileD)

lemma length_idx_lens_loop: "length (idx_lens_loop gs n) = length gs"
  by (induction gs arbitrary: n) auto

lemma concat_idx_lens_loop: "concat (idx_lens_loop gs n) = [n ..< n + length (concat gs)]"
proof (induction gs arbitrary: n)
  case Nil
  show ?case by simp
next
  case (Cons g gs)
  have "[n ..< n + length g + length (concat gs)] =
        [n ..< n + length g] @ [n + length g ..< n + length g + length (concat gs)]"
    by (rule upt_add_eq_append) simp
  with Cons show ?case by (simp add: add.assoc)
qed

lemma zip_idx_lens_length:
  "p \<in> set (zip gs (idx_lens_loop gs n)) \<Longrightarrow> length (snd p) = length (fst p)"
  by (induction gs arbitrary: n) auto

lemma map_fst_segments_of: "map fst (segments_of s) = groupby s"
  by (simp add: segments_of_def length_idx_lens_loop)

lemma map_snd_segments_of: "map snd (segments_of s) = idx_lens_loop (groupby s) 0"
  by (simp add: segments_of_def length_idx_lens_loop)

lemma positions_segments_of: "concat (map snd (segments_of s)) = [0 ..< length s]"
  by (simp add: map_snd_segments_of concat_idx_lens_loop concat_groupby)

lemma segments_of_nonempty:
  assumes "p \<in> set (segments_of s)"
  shows "fst p \<noteq> []" and "snd p \<noteq> []" and "hd (fst p) \<in> set s"
proof -
  have "fst p \<in> set (groupby s)"
    using assms map_fst_segments_of[of s] by (metis image_eqI set_map)
  then show "fst p \<noteq> []" and "hd (fst p) \<in> set s"
    by (auto dest: groupby_nonempty groupby_hd)
  moreover have "length (snd p) = length (fst p)"
    using assms unfolding segments_of_def by (rule zip_idx_lens_length)
  ultimately show "snd p \<noteq> []" by auto
qed

lemma append_loop_labelled:
  assumes "\<forall>p \<in> set ps. fst p \<noteq> [] \<and> hd (fst p) \<in> labels"
  shows "append_loop ps st =
           Inr \<lparr>seg_E = seg_E st @ filter (has_label CHR ''E'') ps,
                seg_H = seg_H st @ filter (has_label CHR ''H'') ps,
                seg_dash = seg_dash st @ filter (has_label CHR ''-'') ps\<rparr>"
  using assms
proof (induction ps arbitrary: st)
  case Nil
  show ?case by simp
next
  case (Cons p ps)
  obtain s idx where p: "p = (s, idx)" by (cases p)
  from Cons.prems p obtain c cs where s: "s = c # cs" and c: "c \<in> labels"
    by (cases s) auto
  from Cons.prems have rest: "\<forall>q \<in> set ps. fst q \<noteq> [] \<and> hd (fst q) \<in> labels"
    by simp
  from c consider "c = CHR ''E''" | "c = CHR ''H''" | "c = CHR ''-''"
    by (auto simp: labels_def)
  then show ?case
  proof cases
    case 1
    then show ?thesis
      by (simp add: p s append_item_def Cons.IH[OF rest] has_label_def)
  next
    case 2
    then show ?thesis
      by (simp add: p s append_item_def Cons.IH[OF rest] has_label_def)
  next
    case 3
    then show ?thesis
      by (simp add: p s append_item_def Cons.IH[OF rest] has_label_def)
  qed
qed

lemma get_segments_labelled:
  assumes "set s \<subseteq> labels"
  shows "get_segments s =
           Inr \<lparr>seg_E = filter (has_label CHR ''E'') (segments_of s),
                seg_H = filter (has_label CHR ''H'') (segments_of s),
                seg_dash = filter (has_label CHR ''-'') (segments_of s)\<rparr>"
proof -
  have "\<forall>p \<in> set (segments_of s). fst p \<noteq> [] \<and> hd (fst p) \<in> labels"
    using assms segments_of_nonempty by blast
  from append_loop_labelled[OF this, of empty_segment_types]
  show ?thesis
    by (simp add: get_segments_def segments_of_def empty_segment_types_def Let_def)
qed

lemma has_label_cases:
  assumes "fst p \<noteq> []" "hd (fst p) \<in> labels"
  shows "(has_label CHR ''E'' p \<and> \<not> has_label CHR ''H'' p \<and> \<not> has_label CHR ''-'' p) \<or>
         (\<not> has_label CHR ''E'' p \<and> has_label CHR ''H'' p \<and> \<not> has_label CHR ''-'' p) \<or>
         (\<not> has_label CHR ''E'' p \<and> \<not> has_label CHR ''H'' p \<and> has_label CHR ''-'' p)"
  using assms by (cases "fst p") (auto simp: has_label_def labels_def)

lemma mset_positions_three_filters:
  assumes "\<forall>p \<in> set ps. fst p \<noteq> [] \<and> hd (fst p) \<in> labels"
  shows "mset (concat (map snd (filter (has_label CHR ''E'') ps))) +
         mset (concat (map snd (filter (has_label CHR ''H'') ps))) +
         mset (concat (map snd (filter (has_label CHR ''-'') ps))) = mset (concat (map snd ps))"
  using assms
proof (induction ps)
  case Nil
  show ?case by simp
next
  case (Cons p ps)
  then have IH: "mset (concat (map snd (filter (has_label CHR ''E'') ps))) +
         mset (concat (map snd (filter (has_label CHR ''H'') ps))) +
         mset (concat (map snd (filter (has_label CHR ''-'') ps))) = mset (concat (map snd ps))"
    by simp
  from Cons.prems have "fst p \<noteq> []" "hd (fst p) \<in> labels" by simp_all
  from has_label_cases[OF this] show ?case
    by (elim disjE conjE) (simp_all add: IH[symmetric])
qed

lemma pooled_positions:
  assumes "set s \<subseteq> labels"
  shows "mset (concat (map snd (filter (has_label CHR ''E'') (segments_of s) @
               filter (has_label CHR ''H'') (segments_of s) @
               filter (has_label CHR ''-'') (segments_of s)))) = mset [0 ..< length s]"
proof -
  have "\<forall>p \<in> set (segments_of s). fst p \<noteq> [] \<and> hd (fst p) \<in> labels"
    using assms segments_of_nonempty by blast
  from mset_positions_three_filters[OF this] show ?thesis
    by (simp add: add.assoc positions_segments_of)
qed

lemma sorted_positions_filter:
  "sorted_wrt (<) (concat (map snd ps)) \<Longrightarrow> sorted_wrt (<) (concat (map snd (filter P ps)))"
  by (induction ps) (auto simp: sorted_wrt_append)

section \<open>The loops of the overlap score as sums\<close>

lemma pred_loop_sum: "pred_loop i js acc = acc + (\<Sum>j\<leftarrow>js. contribution i j)"
  by (induction js arbitrary: acc) (simp_all add: contribution_def)

lemma ref_loop_sum:
  "ref_loop refs preds (a, n) = (a + class_total refs preds, n + (\<Sum>i\<leftarrow>refs. l_s i))"
  by (induction refs arbitrary: a n) (simp_all add: pred_loop_sum class_total_def)

lemma key_loop_sum:
  "key_loop dict_keys ss_ref ss_pred (0, 0) =
     Inr (class_total (seg_E ss_ref) (seg_E ss_pred) + class_total (seg_H ss_ref) (seg_H ss_pred) +
            class_total (seg_dash ss_ref) (seg_dash ss_pred),
          (\<Sum>i\<leftarrow>seg_E ss_ref. l_s i) + (\<Sum>i\<leftarrow>seg_H ss_ref. l_s i) + (\<Sum>i\<leftarrow>seg_dash ss_ref. l_s i))"
  by (simp add: dict_keys_def getitem_def ref_loop_sum)

lemma sum_l_s: "(\<Sum>i\<leftarrow>ps. l_s i) = int (length (concat (map snd ps)))"
  by (induction ps) (simp_all add: l_s_def)

lemma N_total_length:
  assumes "set s \<subseteq> labels"
  shows "(\<Sum>i\<leftarrow>filter (has_label CHR ''E'') (segments_of s). l_s i) +
         (\<Sum>i\<leftarrow>filter (has_label CHR ''H'') (segments_of s). l_s i) +
         (\<Sum>i\<leftarrow>filter (has_label CHR ''-'') (segments_of s). l_s i) = int (length s)"
proof -
  have "length (concat (map snd (filter (has_label CHR ''E'') (segments_of s) @
               filter (has_label CHR ''H'') (segments_of s) @
               filter (has_label CHR ''-'') (segments_of s)))) = length [0 ..< length s]"
    using pooled_positions[OF assms] by (rule mset_eq_length)
  then show ?thesis by (simp add: sum_l_s)
qed

lemma segment_of_overlap_labelled:
  assumes "set r \<subseteq> labels" "set p \<subseteq> labels"
  shows "segment_of_overlap r p =
           (if r = [] then Inl ZeroDivisionError else Inr (val_total_of r p / real (length r)))"
  using N_total_length[OF assms(1)]
  by (simp add: segment_of_overlap_def get_segments_labelled[OF assms(1)]
      get_segments_labelled[OF assms(2)] key_loop_sum val_total_of_def)

lemma minov_card: "minov i j = int (card (set (snd i) \<inter> set (snd j)))"
proof -
  have "set (filter (\<lambda>x. x \<in> set (snd j)) (snd i)) = set (snd i) \<inter> set (snd j)"
    by auto
  then show ?thesis
    by (simp add: minov_def intersect1d_def length_remdups_card_conv)
qed

lemma maxov_card: "maxov i j = int (card (set (snd i) \<union> set (snd j)))"
  by (simp add: maxov_def union1d_def length_remdups_card_conv)

lemma minov_le_maxov: "minov i j \<le> maxov i j"
  unfolding minov_card maxov_card by (intro iffD2[OF of_nat_le_iff] card_mono) auto

lemma self_contribution:
  assumes "snd i \<noteq> []" "distinct (snd i)"
  shows "contribution i i = real_of_int (l_s i)"
proof -
  have len: "card (set (snd i)) = length (snd i)"
    using assms(2) by (rule distinct_card)
  have pos: "0 < length (snd i)" using assms(1) by simp
  have m: "minov i i = l_s i" and M: "maxov i i = l_s i"
    by (simp_all add: minov_card maxov_card len l_s_def)
  have l: "0 < l_s i" using pos by (simp add: l_s_def)
  then have d: "delta i i = 0"
    by (simp add: delta_def m M)
  show ?thesis using l by (simp add: contribution_def pair_value_def m M d)
qed

lemma disjoint_contribution:
  assumes "set (snd i) \<inter> set (snd j) = {}"
  shows "contribution i j = 0"
  using assms by (simp add: contribution_def minov_card)

lemma sum_list_single:
  fixes f :: "'a \<Rightarrow> real"
  assumes "distinct xs" "i \<in> set xs" "\<forall>j \<in> set xs. j \<noteq> i \<longrightarrow> f j = 0"
  shows "(\<Sum>j\<leftarrow>xs. f j) = f i"
proof -
  have "(\<Sum>j\<leftarrow>xs. f j) = sum f (set xs)"
    using assms(1) by (rule sum_list_distinct_conv_sum_set)
  also have "\<dots> = f i + sum f (set xs - {i})"
    using assms(2) by (simp add: sum.remove)
  also have "sum f (set xs - {i}) = 0"
    using assms(3) by (intro sum.neutral) auto
  finally show ?thesis by simp
qed

lemma segments_of_distinct:
  shows "distinct (segments_of s)"
    and "p \<in> set (segments_of s) \<Longrightarrow> distinct (snd p)"
    and "p \<in> set (segments_of s) \<Longrightarrow> q \<in> set (segments_of s) \<Longrightarrow> p \<noteq> q \<Longrightarrow>
           set (snd p) \<inter> set (snd q) = {}"
proof -
  let ?idx = "map snd (segments_of s)"
  have d: "distinct (concat ?idx)" by (simp add: positions_segments_of)
  have ne: "[] \<notin> set ?idx" using segments_of_nonempty(2) by force
  from d have d1: "distinct (removeAll [] ?idx)"
    and d2: "\<And>ys. ys \<in> set ?idx \<Longrightarrow> distinct ys"
    and d3: "\<And>ys zs. ys \<in> set ?idx \<Longrightarrow> zs \<in> set ?idx \<Longrightarrow> ys \<noteq> zs \<Longrightarrow> set ys \<inter> set zs = {}"
    unfolding distinct_concat_iff by blast+
  from d1 ne have dm: "distinct ?idx" by (simp add: removeAll_id)
  then show "distinct (segments_of s)" by (simp add: distinct_map)
  show "p \<in> set (segments_of s) \<Longrightarrow> distinct (snd p)" using d2 by simp
  show "set (snd p) \<inter> set (snd q) = {}"
    if "p \<in> set (segments_of s)" "q \<in> set (segments_of s)" "p \<noteq> q"
  proof -
    from dm have "inj_on snd (set (segments_of s))" by (simp add: distinct_map)
    with that have "snd p \<noteq> snd q" by (auto dest: inj_onD)
    with that d3 show ?thesis by simp
  qed
qed

lemma of_int_sum_list: "(\<Sum>i\<leftarrow>xs. real_of_int (f i)) = real_of_int (\<Sum>i\<leftarrow>xs. f i)"
  by (induction xs) simp_all

lemma class_total_self:
  "class_total (filter P (segments_of s)) (filter P (segments_of s)) =
     real_of_int (\<Sum>i\<leftarrow>filter P (segments_of s). l_s i)"
proof -
  let ?G = "filter P (segments_of s)"
  have row: "(\<Sum>j\<leftarrow>?G. contribution i j) = real_of_int (l_s i)" if "i \<in> set ?G" for i
  proof -
    from that have i: "i \<in> set (segments_of s)" by simp
    have "(\<Sum>j\<leftarrow>?G. contribution i j) = contribution i i"
    proof (rule sum_list_single)
      show "distinct ?G" using segments_of_distinct(1) by (rule distinct_filter)
      show "i \<in> set ?G" by (rule that)
      show "\<forall>j \<in> set ?G. j \<noteq> i \<longrightarrow> contribution i j = 0"
        using i segments_of_distinct(3)[of i s] by (auto intro!: disjoint_contribution)
    qed
    also have "\<dots> = real_of_int (l_s i)"
      using i by (intro self_contribution segments_of_nonempty(2) segments_of_distinct(2))
    finally show ?thesis .
  qed
  have "map (\<lambda>i. \<Sum>j\<leftarrow>?G. contribution i j) ?G = map (\<lambda>i. real_of_int (l_s i)) ?G"
    by (rule map_cong) (simp_all only: row)
  then have "class_total ?G ?G = (\<Sum>i\<leftarrow>?G. real_of_int (l_s i))"
    unfolding class_total_def by (rule arg_cong)
  also have "\<dots> = real_of_int (\<Sum>i\<leftarrow>?G. l_s i)"
    by (rule of_int_sum_list)
  finally show ?thesis .
qed

lemma delta_le: "delta i j \<le> maxov i j - minov i j"
  by (simp add: delta_def)

section \<open>Residue accuracy on flat arrays\<close>

lemma q3_acc_flat_short_pred:
  assumes "2 \<le> length xs"
  shows "q3_acc np (Arr1 xs) (Arr1 [y]) =
           Inr (Float (real (length (filter (\<lambda>x. x = y) xs)) / real (length xs)))"
  using assms by (auto simp: q3_eval)

lemma q3_acc_flat_no_broadcast:
  assumes "2 \<le> length xs" "2 \<le> length ys" "length xs \<noteq> length ys"
  shows "q3_acc ComparisonReturnsFalse (Arr1 xs) (Arr1 ys) = Inr (Float 0)"
    and "q3_acc ComparisonRaises (Arr1 xs) (Arr1 ys) = Inl ValueError"
  using assms by (auto simp: q3_eval)

lemma squeeze_if_single_Arr1:
  "squeeze_if_single (Arr1 ys) = Inr (if length ys = 1 then Arr0 (hd ys) else Arr1 ys)"
  by (cases "Arr1 ys" rule: squeeze0.cases) (simp_all add: squeeze_if_single_def)

lemma squeeze_if_single_error: "squeeze_if_single a = Inl e \<Longrightarrow> e = IndexError"
  by (cases a) (simp_all add: squeeze_if_single_Arr1, simp_all add: squeeze_if_single_def)

lemma sum_equal_Arr0: "\<exists>n. sum_equal np (Arr0 x) b = Inr n"
  by (simp add: sum_equal_def Let_def)

lemma q3_acc_flat_one: "q3_acc np (Arr1 [x]) pred_v = Inl IndexError"
proof (cases "squeeze_if_single pred_v")
  case (Inl e)
  then show ?thesis
    using squeeze_if_single_error[OF Inl] by (simp add: q3_acc_def squeeze_if_single_Arr1)
next
  case (Inr pred_s)
  obtain n where "sum_equal np (Arr0 x) pred_s = Inr n"
    using sum_equal_Arr0[of np x pred_s] by blast
  with Inr show ?thesis
    by (simp add: q3_acc_def squeeze_if_single_Arr1)
qed

lemma q3_acc_flat_many:
  assumes "length xs = length ys" "xs \<noteq> []" "length xs \<noteq> 1"
  shows "q3_acc np (Arr1 xs) (Arr1 ys) =
           Inr (Float (real (length (filter (\<lambda>(x, y). x = y) (zip xs ys))) / real (length xs)))"
  using assms by (auto simp: q3_eval)

lemma matches_same: "length (filter (\<lambda>(x, y). x = y) (zip xs xs)) = length xs"
  by (induction xs) simp_all

lemma matches_all:
  assumes "length xs = length ys"
  shows "length (filter (\<lambda>(x, y). x = y) (zip xs ys)) = length xs \<longleftrightarrow> xs = ys"
  using assms
proof (induction xs ys rule: list_induct2)
  case Nil
  show ?case by simp
next
  case (Cons x xs y ys)
  have le: "length (filter (\<lambda>(x, y). x = y) (zip xs ys)) \<le> length xs"
    using length_filter_le[of "\<lambda>(x, y). x = y" "zip xs ys"] Cons.hyps by simp
  show ?case
  proof (cases "x = y")
    case True
    with Cons.IH show ?thesis by simp
  next
    case False
    with le show ?thesis by simp
  qed
qed

lemma matches_none:
  assumes "length xs = length ys"
  shows "length (filter (\<lambda>(x, y). x = y) (zip xs ys)) = 0 \<longleftrightarrow> (\<forall>k < length xs. xs ! k \<noteq> ys ! k)"
  using assms
proof (induction xs ys rule: list_induct2)
  case Nil
  show ?case by simp
next
  case (Cons x xs y ys)
  have "(\<forall>k < Suc (length xs). (x # xs) ! k \<noteq> (y # ys) ! k) \<longleftrightarrow>
        x \<noteq> y \<and> (\<forall>k < length xs. xs ! k \<noteq> ys ! k)"
    by (simp add: All_less_Suc2)
  with Cons.IH show ?case by simp
qed

lemma q3_acc_flat_bounds:
  assumes "length xs = length ys" and "2 \<le> length xs"
  shows "\<exists>v. q3_acc np (Arr1 xs) (Arr1 ys) = Inr (Float v) \<and> 0 \<le> v \<and> v \<le> 1 \<and>
           (v = 1 \<longleftrightarrow> xs = ys) \<and> (v = 0 \<longleftrightarrow> (\<forall>k < length xs. xs ! k \<noteq> ys ! k))"
proof -
  let ?m = "length (filter (\<lambda>(x, y). x = y) (zip xs ys))"
  let ?n = "length xs"
  let ?v = "real ?m / real ?n"
  from assms(2) have n: "0 < ?n" and ne: "xs \<noteq> []" and n1: "?n \<noteq> 1" by auto
  have q: "q3_acc np (Arr1 xs) (Arr1 ys) = Inr (Float ?v)"
    using assms(1) ne n1 by (rule q3_acc_flat_many)
  have le: "?m \<le> ?n"
    using length_filter_le[of "\<lambda>(x, y). x = y" "zip xs ys"] assms(1) by simp
  have b0: "0 \<le> ?v" by simp
  have b1: "?v \<le> 1" using n le by simp
  have one: "?v = 1 \<longleftrightarrow> xs = ys"
  proof
    assume "?v = 1"
    with n have "real ?m = real ?n" by simp
    then have "?m = ?n" by (simp only: of_nat_eq_iff)
    with matches_all[OF assms(1)] show "xs = ys" by simp
  next
    assume "xs = ys"
    with matches_all[OF assms(1)] have "?m = ?n" by simp
    with n show "?v = 1" by simp
  qed
  have zero: "?v = 0 \<longleftrightarrow> (\<forall>k < length xs. xs ! k \<noteq> ys ! k)"
    using n matches_none[OF assms(1)] by simp
  from q b0 b1 one zero show ?thesis by blast
qed

section \<open>The claims of the specification\<close>

subsection \<open>C1: identity\<close>

text \<open>
  Claim C1. For every non-empty label sequence \<open>x\<close> over the alphabet H, E, -, the
  score \<^verbatim>\<open>segment_of_overlap(x, x)\<close> is exactly 1: each segment overlaps only itself, with
  overlap equal to union and delta 0, so it contributes its length, and \<open>val_total\<close> equals
  \<open>N_total\<close>, the length of \<open>x\<close>.
\<close>

theorem segment_of_overlap_identity:
  assumes "x \<noteq> []" and "set x \<subseteq> {CHR ''H'', CHR ''E'', CHR ''-''}"
  shows "segment_of_overlap x x = Inr 1"
proof -
  from assms(2) have lab: "set x \<subseteq> labels" by (simp add: labels_def)
  have "val_total_of x x = real (length x)"
    unfolding val_total_of_def class_total_self
    using N_total_length[OF lab]
    by (metis of_int_add of_int_of_nat_eq)
  with assms(1) show ?thesis
    by (simp add: segment_of_overlap_labelled[OF lab lab])
qed

text \<open>
  C1 at the sequence \<^verbatim>\<open>HHHEEE---\<close>.
\<close>

theorem segment_of_overlap_identity_witness:
  "''HHHEEE---'' \<noteq> [] \<and> set ''HHHEEE---'' \<subseteq> {CHR ''H'', CHR ''E'', CHR ''-''} \<and>
   segment_of_overlap ''HHHEEE---'' ''HHHEEE---'' = Inr 1"
proof -
  have h1: "''HHHEEE---'' \<noteq> []" by simp
  have h2: "set ''HHHEEE---'' \<subseteq> {CHR ''H'', CHR ''E'', CHR ''-''}" by simp
  show ?thesis using h1 h2 segment_of_overlap_identity[OF h1 h2] by blast
qed

subsection \<open>C2: no upper bound of 1\<close>

text \<open>
  Claim C2. The score is not bounded above by 1: there are non-empty label sequences of
  equal length whose score is strictly greater than 1. On the reference \<^verbatim>\<open>HHHHH\<close> and the
  prediction \<^verbatim>\<open>HH-HH\<close> the one reference segment meets two predicted segments, each pair
  contributes 3, and the score is 6/5.
\<close>

theorem sov_can_exceed_one:
  "\<exists>r p s. length r = length p \<and> r \<noteq> [] \<and> segment_of_overlap r p = Inr s \<and> 1 < s"
proof -
  have "length ''HHHHH'' = length ''HH-HH'' \<and> ''HHHHH'' \<noteq> [] \<and>
        segment_of_overlap ''HHHHH'' ''HH-HH'' = Inr (6 / 5) \<and> (1::real) < 6 / 5"
    using sov_HHHHH_HH_HH by simp
  then show ?thesis by blast
qed

subsection \<open>C3: the bound on overlap plus delta\<close>

text \<open>
  Claim C3 states \<open>overlap + delta \<le> l1\<close> for every matched pair. It fails where a
  reference segment lies strictly inside a longer predicted one: for the reference
  \<^verbatim>\<open>EHHE\<close> and the prediction \<^verbatim>\<open>HHHH\<close> the H segments have \<open>l1 = 2\<close>, \<open>l2 = 4\<close>,
  overlap 2, union 4 and delta 1, so overlap plus delta is 3.
\<close>

theorem overlap_plus_delta_exceeds_l1:
  "get_segments ''EHHE'' =
     Inr \<lparr>seg_E = [(''E'', [0]), (''E'', [3])], seg_H = [(''HH'', [1, 2])], seg_dash = []\<rparr> \<and>
   get_segments ''HHHH'' = Inr \<lparr>seg_E = [], seg_H = [(''HHHH'', [0, 1, 2, 3])], seg_dash = []\<rparr> \<and>
   0 < minov (''HH'', [1, 2]) (''HHHH'', [0, 1, 2, 3]) \<and>
   \<not> minov (''HH'', [1, 2]) (''HHHH'', [0, 1, 2, 3]) + delta (''HH'', [1, 2]) (''HHHH'', [0, 1, 2, 3])
       \<le> l_s (''HH'', [1, 2])"
  using get_segments_EHHE get_segments_HHHH
  by (simp add: minov_def maxov_def delta_def l_s_def intersect1d_def union1d_def)

text \<open>
  Claim C3, amended. For every pair of segments with positive overlap,
  \<open>overlap + delta \<le> union\<close>, and therefore the value \<open>l1 * (overlap + delta) / union\<close>
  that the pair contributes is at most \<open>l1\<close>.
\<close>

theorem overlap_plus_delta_le_union:
  assumes "0 < minov i j"
  shows "minov i j + delta i j \<le> maxov i j \<and> pair_value i j \<le> real_of_int (l_s i)"
proof -
  have le: "minov i j + delta i j \<le> maxov i j"
    using delta_le[of i j] by simp
  have M: "0 < maxov i j"
    using assms minov_le_maxov[of i j] by simp
  have l: "0 \<le> l_s i" by (simp add: l_s_def)
  have "real_of_int (l_s i) * real_of_int (minov i j + delta i j)
          \<le> real_of_int (l_s i) * real_of_int (maxov i j)"
    using le l by (intro mult_left_mono) simp_all
  then have "pair_value i j \<le> real_of_int (l_s i)"
    using M by (simp add: pair_value_def pos_divide_le_eq)
  with le show ?thesis by simp
qed

text \<open>
  The amended C3 at the pair of H segments of \<^verbatim>\<open>EHHE\<close> and \<^verbatim>\<open>HHHH\<close>.
\<close>

theorem overlap_plus_delta_le_union_witness:
  "0 < minov (''HH'', [1, 2]) (''HHHH'', [0, 1, 2, 3]) \<and>
   minov (''HH'', [1, 2]) (''HHHH'', [0, 1, 2, 3]) + delta (''HH'', [1, 2]) (''HHHH'', [0, 1, 2, 3])
     \<le> maxov (''HH'', [1, 2]) (''HHHH'', [0, 1, 2, 3]) \<and>
   pair_value (''HH'', [1, 2]) (''HHHH'', [0, 1, 2, 3]) \<le> real_of_int (l_s (''HH'', [1, 2]))"
proof -
  have h: "0 < minov (''HH'', [1, 2]) (''HHHH'', [0, 1, 2, 3])"
    by (simp add: minov_def intersect1d_def)
  show ?thesis using h overlap_plus_delta_le_union[OF h] by simp
qed

subsection \<open>C4: the scenario HHHH against HHEE\<close>

text \<open>
  Claim C4. On the reference \<^verbatim>\<open>HHHH\<close> and the prediction \<^verbatim>\<open>HHEE\<close>, whose label arrays
  are \<open>[0, 0, 0, 0]\<close> and \<open>[0, 0, 1, 1]\<close>, \<^verbatim>\<open>q3_acc\<close> returns 0.5 and
  \<^verbatim>\<open>segment_of_overlap\<close> returns 3/4.
\<close>

theorem scenario_HHHH_HHEE:
  "label_to_index ''HHHH'' = Inr [0, 0, 0, 0] \<and>
   label_to_index ''HHEE'' = Inr [0, 0, 1, 1] \<and>
   q3_acc np (Arr1 [0, 0, 0, 0 :: int]) (Arr1 [0, 0, 1, 1]) = Inr (Float (1 / 2)) \<and>
   segment_of_overlap ''HHHH'' ''HHEE'' = Inr (3 / 4)"
  using sov_HHHH_HHEE by (simp add: ss_id_dict_def q3_eval)

subsection \<open>C5: the segments partition the positions\<close>

text \<open>
  Claim C5. For every label sequence of length \<open>N\<close> over H, E, -, \<^verbatim>\<open>get_segments\<close>
  returns segments whose positions, pooled over the three keys, are the positions
  \<open>0, \<dots>, N - 1\<close>, each exactly once; within each key the positions ascend, so the
  segments of a key stand in left-to-right order.
\<close>

theorem get_segments_partition:
  assumes "set ss_str \<subseteq> {CHR ''H'', CHR ''E'', CHR ''-''}"
  shows "\<exists>st. get_segments ss_str = Inr st \<and>
           mset (concat (map snd (seg_E st @ seg_H st @ seg_dash st))) = mset [0 ..< length ss_str] \<and>
           sorted_wrt (<) (concat (map snd (seg_E st))) \<and>
           sorted_wrt (<) (concat (map snd (seg_H st))) \<and>
           sorted_wrt (<) (concat (map snd (seg_dash st)))"
proof -
  from assms have lab: "set ss_str \<subseteq> labels" by (simp add: labels_def)
  have srt: "sorted_wrt (<) (concat (map snd (segments_of ss_str)))"
    by (simp add: positions_segments_of)
  show ?thesis
    using get_segments_labelled[OF lab] pooled_positions[OF lab] sorted_positions_filter[OF srt]
    by simp
qed

text \<open>
  C5 at the sequence \<^verbatim>\<open>HHE-H\<close>.
\<close>

theorem get_segments_partition_witness:
  "set ''HHE-H'' \<subseteq> {CHR ''H'', CHR ''E'', CHR ''-''} \<and>
   (\<exists>st. get_segments ''HHE-H'' = Inr st \<and>
           mset (concat (map snd (seg_E st @ seg_H st @ seg_dash st))) = mset [0 ..< length ''HHE-H''] \<and>
           sorted_wrt (<) (concat (map snd (seg_E st))) \<and>
           sorted_wrt (<) (concat (map snd (seg_H st))) \<and>
           sorted_wrt (<) (concat (map snd (seg_dash st))))"
proof -
  have h: "set ''HHE-H'' \<subseteq> {CHR ''H'', CHR ''E'', CHR ''-''}" by simp
  show ?thesis using h get_segments_partition[OF h] by blast
qed

subsection \<open>C6: inputs of different lengths\<close>

text \<open>
  Claim C6 states that both functions reject inputs of different lengths before computing
  anything. Neither function compares the lengths: on \<^verbatim>\<open>HHHHH\<close> against \<^verbatim>\<open>HHHH\<close>
  the overlap score is 1, and on a flat array of length 2 against one of length 1
  \<^verbatim>\<open>q3_acc\<close> returns 1, under either behaviour of NumPy's comparison.
\<close>

theorem unequal_lengths_scored:
  "length ''HHHHH'' \<noteq> length ''HHHH'' \<and>
   segment_of_overlap ''HHHHH'' ''HHHH'' = Inr 1 \<and>
   q3_acc ComparisonRaises (Arr1 [0, 0 :: int]) (Arr1 [0]) = Inr (Float 1) \<and>
   q3_acc ComparisonReturnsFalse (Arr1 [0, 0 :: int]) (Arr1 [0]) = Inr (Float 1)"
  using sov_HHHHH_HHHH by (simp add: q3_eval)

text \<open>
  Claim C6, amended. Inputs of different lengths are not rejected. For label sequences
  over H, E, - with a non-empty reference, \<^verbatim>\<open>segment_of_overlap\<close> returns a score. For a
  flat reference of length at least 2 and a flat prediction of length 1, \<^verbatim>\<open>q3_acc\<close>
  returns the fraction of reference positions that carry the prediction's one label. For
  flat arrays of different lengths, both at least 2, the comparison does not broadcast and
  \<^verbatim>\<open>q3_acc\<close> returns 0 with NumPy before 1.25 and raises ValueError from 1.25 on.
\<close>

theorem unequal_lengths_not_rejected:
  "(length r \<noteq> length p \<and> r \<noteq> [] \<and>
      set r \<subseteq> {CHR ''H'', CHR ''E'', CHR ''-''} \<and> set p \<subseteq> {CHR ''H'', CHR ''E'', CHR ''-''}
      \<longrightarrow> (\<exists>s. segment_of_overlap r p = Inr s)) \<and>
   (2 \<le> length xs \<longrightarrow>
      q3_acc np (Arr1 xs) (Arr1 [y]) =
        Inr (Float (real (length (filter (\<lambda>x. x = y) xs)) / real (length xs)))) \<and>
   (2 \<le> length xs \<and> 2 \<le> length ys \<and> length xs \<noteq> length ys \<longrightarrow>
      q3_acc ComparisonReturnsFalse (Arr1 xs) (Arr1 ys) = Inr (Float 0) \<and>
      q3_acc ComparisonRaises (Arr1 xs) (Arr1 ys) = Inl ValueError)"
proof (intro conjI impI)
  assume a: "length r \<noteq> length p \<and> r \<noteq> [] \<and>
      set r \<subseteq> {CHR ''H'', CHR ''E'', CHR ''-''} \<and> set p \<subseteq> {CHR ''H'', CHR ''E'', CHR ''-''}"
  then have "set r \<subseteq> labels" "set p \<subseteq> labels" by (simp_all add: labels_def)
  from segment_of_overlap_labelled[OF this] a
  show "\<exists>s. segment_of_overlap r p = Inr s" by simp
next
  assume "2 \<le> length xs"
  then show "q3_acc np (Arr1 xs) (Arr1 [y]) =
        Inr (Float (real (length (filter (\<lambda>x. x = y) xs)) / real (length xs)))"
    by (rule q3_acc_flat_short_pred)
next
  assume "2 \<le> length xs \<and> 2 \<le> length ys \<and> length xs \<noteq> length ys"
  then show "q3_acc ComparisonReturnsFalse (Arr1 xs) (Arr1 ys) = Inr (Float 0)"
    by (simp add: q3_acc_flat_no_broadcast)
next
  assume "2 \<le> length xs \<and> 2 \<le> length ys \<and> length xs \<noteq> length ys"
  then show "q3_acc ComparisonRaises (Arr1 xs) (Arr1 ys) = Inl ValueError"
    by (simp add: q3_acc_flat_no_broadcast)
qed

text \<open>
  The amended C6 at \<^verbatim>\<open>HHHHH\<close> against \<^verbatim>\<open>HHHH\<close> and at arrays of lengths 3, 1 and 2.
\<close>

theorem unequal_lengths_not_rejected_witness:
  "length ''HHHHH'' \<noteq> length ''HHHH'' \<and>
   (\<exists>s. segment_of_overlap ''HHHHH'' ''HHHH'' = Inr s) \<and>
   q3_acc ComparisonRaises (Arr1 [0, 0, 1 :: int]) (Arr1 [0]) = Inr (Float (2 / 3)) \<and>
   q3_acc ComparisonReturnsFalse (Arr1 [0, 0, 1 :: int]) (Arr1 [0, 0]) = Inr (Float 0) \<and>
   q3_acc ComparisonRaises (Arr1 [0, 0, 1 :: int]) (Arr1 [0, 0]) = Inl ValueError"
  using unequal_lengths_not_rejected[of "''HHHHH''" "''HHHH''" "[0, 0, 1 :: int]" ComparisonRaises 0 "[0, 0]"]
  by simp

subsection \<open>C7: empty inputs\<close>

text \<open>
  Claim C7 states that on two empty sequences the score signals a dedicated error and not
  a raw division by zero. The code has no such check: all segment lists are empty,
  \<open>val_total\<close> and \<open>N_total\<close> are both the integer 0, and the final division raises
  Python's ZeroDivisionError.
\<close>

theorem empty_inputs_raw_division: "segment_of_overlap [] [] = Inl ZeroDivisionError"
  by (simp add: sov_eval)

text \<open>
  Claim C7, amended. When the reference and the prediction both have length zero,
  \<^verbatim>\<open>segment_of_overlap\<close> returns neither a score nor NaN: it fails with the
  ZeroDivisionError of its final division.
\<close>

theorem empty_inputs_zero_division:
  assumes "length ss_ref_str = 0" and "length ss_pred_str = 0"
  shows "segment_of_overlap ss_ref_str ss_pred_str = Inl ZeroDivisionError"
proof -
  from assms have "ss_ref_str = []" "ss_pred_str = []" by simp_all
  then show ?thesis
    by (simp add: segment_of_overlap_def get_segments_def empty_segment_types_def
        dict_keys_def getitem_def)
qed

text \<open>
  The amended C7 at the two empty strings.
\<close>

theorem empty_inputs_zero_division_witness:
  "length '''' = 0 \<and> segment_of_overlap '''' '''' = Inl ZeroDivisionError"
  using empty_inputs_zero_division[of "''''" "''''"] by simp

subsection \<open>C8: asymmetry\<close>

text \<open>
  Claim C8. The score is not symmetric: \<^verbatim>\<open>HHHH\<close> against \<^verbatim>\<open>HHEE\<close> scores 3/4 and
  \<^verbatim>\<open>HHEE\<close> against \<^verbatim>\<open>HHHH\<close> scores 3/8. The denominator \<open>N_total\<close> that the loop over
  the keys accumulates is the sum of the lengths of the reference's segments, whatever the
  prediction.
\<close>

theorem sov_not_symmetric:
  "(\<exists>a b s t. length a = length b \<and> a \<noteq> [] \<and>
      segment_of_overlap a b = Inr s \<and> segment_of_overlap b a = Inr t \<and> s \<noteq> t) \<and>
   (\<forall>ss_ref ss_pred. \<exists>val_total.
      key_loop dict_keys ss_ref ss_pred (0, 0) =
        Inr (val_total,
             (\<Sum>i\<leftarrow>seg_E ss_ref. l_s i) + (\<Sum>i\<leftarrow>seg_H ss_ref. l_s i) + (\<Sum>i\<leftarrow>seg_dash ss_ref. l_s i)))"
proof
  have "length ''HHHH'' = length ''HHEE'' \<and> ''HHHH'' \<noteq> [] \<and>
        segment_of_overlap ''HHHH'' ''HHEE'' = Inr (3 / 4) \<and>
        segment_of_overlap ''HHEE'' ''HHHH'' = Inr (3 / 8) \<and> (3 / 4 :: real) \<noteq> 3 / 8"
    using sov_HHHH_HHEE sov_HHEE_HHHH by simp
  then show "\<exists>a b s t. length a = length b \<and> a \<noteq> [] \<and>
      segment_of_overlap a b = Inr s \<and> segment_of_overlap b a = Inr t \<and> s \<noteq> t"
    by blast
next
  show "\<forall>ss_ref ss_pred. \<exists>val_total.
      key_loop dict_keys ss_ref ss_pred (0, 0) =
        Inr (val_total,
             (\<Sum>i\<leftarrow>seg_E ss_ref. l_s i) + (\<Sum>i\<leftarrow>seg_H ss_ref. l_s i) + (\<Sum>i\<leftarrow>seg_dash ss_ref. l_s i))"
    by (simp add: key_loop_sum)
qed

subsection \<open>C9: bounds of the residue accuracy\<close>

text \<open>
  Claim C9 states that \<^verbatim>\<open>q3_acc\<close> returns a value in \<open>[0, 1]\<close> for all flat sequences
  of equal non-zero length, 1 exactly for identical sequences. By \<open>q3_acc_flat_bounds\<close>
  the code does so for every length from 2 on. For length 1 it does not: the two identical
  flat arrays \<open>[0]\<close> are squeezed to 0-dimensional arrays and \<^verbatim>\<open>real.shape[0]\<close> raises
  IndexError, where C9 asks for the value 1. The sibling \<^verbatim>\<open>ints_to_symbols1d\<close> squeezes
  only when \<^verbatim>\<open>len(ss_arr.shape) > 1\<close>.
\<close>

theorem q3_acc_identical_singletons: "q3_acc np (Arr1 [0 :: int]) (Arr1 [0]) = Inl IndexError"
  by (simp add: q3_eval)

subsection \<open>C10: flat arrays of length one\<close>

text \<open>
  Claim C10. On non-empty flat arrays of equal length \<^verbatim>\<open>q3_acc\<close> fails, with
  IndexError, exactly when the length is 1: a flat reference of length 1 is squeezed to a
  0-dimensional array, whose \<^verbatim>\<open>shape[0]\<close> does not exist, whatever the prediction is;
  for every other length the function returns the fraction of matching positions.
\<close>

theorem q3_acc_fails_on_flat_singleton:
  assumes "length xs = length ys" and "xs \<noteq> []"
  shows "(q3_acc np (Arr1 xs) (Arr1 ys) = Inl IndexError \<longleftrightarrow> length xs = 1) \<and>
         (length xs = 1 \<longrightarrow> (\<forall>pred_v. q3_acc np (Arr1 xs) pred_v = Inl IndexError)) \<and>
         (length xs \<noteq> 1 \<longrightarrow>
            q3_acc np (Arr1 xs) (Arr1 ys) =
              Inr (Float (real (length (filter (\<lambda>(x, y). x = y) (zip xs ys))) / real (length xs))))"
proof (cases "length xs = 1")
  case True
  then obtain x where "xs = [x]" by (cases xs) auto
  then show ?thesis by (simp add: q3_acc_flat_one)
next
  case False
  with q3_acc_flat_many[OF assms, of np] show ?thesis by simp
qed

text \<open>
  C10 at flat arrays of length 1 and of length 2.
\<close>

theorem q3_acc_fails_on_flat_singleton_witness:
  "q3_acc ComparisonRaises (Arr1 [2 :: int]) (Arr1 [2]) = Inl IndexError \<and>
   q3_acc ComparisonRaises (Arr1 [0, 1 :: int]) (Arr1 [0, 0]) = Inr (Float (1 / 2))"
  using q3_acc_fails_on_flat_singleton[of "[2 :: int]" "[2]" ComparisonRaises]
        q3_acc_fails_on_flat_singleton[of "[0, 1 :: int]" "[0, 0]" ComparisonRaises]
  by simp

end
